theory Spec2Isabelle
  imports Main "HOL-Library.Multiset"
begin

section \<open>Time\<close>

text \<open>
  The running aggregator works on Go's \<open>time.Time\<close> and \<open>time.Duration\<close>.
  A wall-clock instant is modelled as its number of nanoseconds since Go's zero time,
  a duration as its number of nanoseconds. A \<open>time.Duration\<close> is an \<open>int64\<close>,
  and arithmetic on durations wraps around; the one such operation in the code
  modelled here is the negation of the grace. Instants are unbounded integers: the
  saturation of \<open>Time.Add\<close> at the ends of Go's time range is outside the model.
\<close>

type_synonym time = int
type_synonym duration = int

text \<open>The value an integer has as a Go \<open>int64\<close>, in two's complement.\<close>

definition int64 :: "int \<Rightarrow> int" where
  "int64 x = (x + 2 ^ 63) mod 2 ^ 64 - 2 ^ 63"

text \<open>Go's unary minus on a duration: the least \<open>int64\<close> is its own negation.\<close>

definition Duration_neg :: "duration \<Rightarrow> duration" where
  "Duration_neg d = int64 (- d)"

definition time_Add :: "time \<Rightarrow> duration \<Rightarrow> time" where
  "time_Add t d = t + d"

definition Before :: "time \<Rightarrow> time \<Rightarrow> bool" where
  "Before t u = (t < u)"

definition After :: "time \<Rightarrow> time \<Rightarrow> bool" where
  "After t u = (t > u)"

text \<open>
  \<open>Time.Truncate d\<close> of Go's standard library: for \<open>d \<le> 0\<close> the instant comes
  back unchanged (only its monotonic clock reading is stripped, which the wall-clock
  model does not carry); for \<open>d > 0\<close> it is rounded down to a multiple of \<open>d\<close>
  since the zero time.
\<close>

definition Truncate :: "time \<Rightarrow> duration \<Rightarrow> time" where
  "Truncate t d = (if d \<le> 0 then t else t - t mod d)"

section \<open>Metrics and the objects they live in\<close>

text \<open>
  A metric has a name, tags, fields and a timestamp; a tracking metric also carries
  the identity of its delivery tracking. The field values are not inspected by the
  code modelled here and stay a type parameter.
\<close>

record 'v metric =
  Name :: string
  TagList :: "(string \<times> string) list"
  FieldList :: "(string \<times> 'v) list"
  Time :: time
  tracking :: "nat option"

text \<open>
  \<open>telegraf.Metric\<close> values are references to mutable objects. The objects are kept
  in a store, a list indexed by address; a new object is put at the end.
\<close>

type_synonym addr = nat
type_synonym 'v heap = "'v metric list"

text \<open>
  Modelled from the spec: \<open>metric.FromMetric\<close> (package metric, not among the
  sources) makes a copy of the metric that does not retain tracking. The copy is a
  new object; the object copied is left as it is.
\<close>

definition FromMetric :: "addr \<Rightarrow> 'v heap \<Rightarrow> addr \<times> 'v heap" where
  "FromMetric m h = (length h, h @ [(h ! m)\<lparr>tracking := None\<rparr>])"

section \<open>Filter and configuration\<close>

text \<open>
  Modelled from the spec: the filter (models.Filter, not among the sources) offers
  \<open>Select\<close>, a match on the metric that answers yes or no or fails with an error,
  and \<open>Modify\<close>, which renames or prunes the name, tags and fields of the object it
  is handed, in place. \<open>Select\<close> returns Go's pair of a boolean and an error, the
  error being \<open>None\<close> for \<open>nil\<close>.
\<close>

record 'v Filter =
  Select :: "'v metric \<Rightarrow> bool \<times> string option"
  Modify :: "string \<times> (string \<times> string) list \<times> (string \<times> 'v) list
               \<Rightarrow> string \<times> (string \<times> string) list \<times> (string \<times> 'v) list"

definition Filter_Modify :: "'v Filter \<Rightarrow> addr \<Rightarrow> 'v heap \<Rightarrow> 'v heap" where
  "Filter_Modify f m h =
     (case Modify f (Name (h ! m), TagList (h ! m), FieldList (h ! m)) of
        (n, ts, fs) \<Rightarrow> h[m := (h ! m)\<lparr>Name := n, TagList := ts, FieldList := fs\<rparr>])"

text \<open>The fields of \<open>AggregatorConfig\<close> that the aggregator's methods read.\<close>

record 'v AggregatorConfig =
  DropOriginal :: bool
  Period :: duration
  Delay :: duration
  Grace :: duration
  Filter :: "'v Filter"

section \<open>The aggregation algorithm\<close>

text \<open>
  \<open>telegraf.Aggregator\<close> is an interface with \<open>Add\<close>, \<open>Push\<close> and \<open>Reset\<close>. An
  implementation is a state of type \<open>'a\<close> with its three methods; \<open>Push\<close> writes
  into an accumulator of type \<open>'c\<close>, which is also where it reports what went wrong.
\<close>

record ('v, 'a, 'c) Aggregator_methods =
  agg_Add :: "'v metric \<Rightarrow> 'a \<Rightarrow> 'a"
  agg_Push :: "'c \<Rightarrow> 'a \<Rightarrow> 'c \<times> 'a"
  agg_Reset :: "'a \<Rightarrow> 'a"

section \<open>RunningAggregator\<close>

text \<open>
  What the aggregator does to the outside is kept in order: the lines it logs and the
  calls it makes into the aggregation algorithm.
\<close>

datatype event =
    Errorf_filtering_failed string
  | Debugf_outside_window time time time duration
  | Debugf_updated_range time time
  | Call_Add addr
  | Call_Push
  | Call_Reset

record ('v, 'a) RunningAggregator =
  Aggregator :: 'a
  Config :: "'v AggregatorConfig"
  periodStart :: time
  periodEnd :: time
  events :: "event list"
  MetricsPushed :: int
  MetricsFiltered :: int
  MetricsDropped :: int
  PushTime :: int

definition logged :: "event \<Rightarrow> ('v, 'a) RunningAggregator \<Rightarrow> ('v, 'a) RunningAggregator" where
  "logged e r = r\<lparr>events := events r @ [e]\<rparr>"

text \<open>
  \<open>NewRunningAggregator\<close> leaves both ends of the period at Go's zero time; the
  statistics start at what the registry hands out, taken as zero.
\<close>

definition NewRunningAggregator :: "'a \<Rightarrow> 'v AggregatorConfig \<Rightarrow> ('v, 'a) RunningAggregator" where
  "NewRunningAggregator aggregator config =
     \<lparr>Aggregator = aggregator, Config = config, periodStart = 0, periodEnd = 0,
      events = [], MetricsPushed = 0, MetricsFiltered = 0, MetricsDropped = 0,
      PushTime = 0\<rparr>"

definition UpdateWindow :: "time \<Rightarrow> time \<Rightarrow> ('v, 'a) RunningAggregator \<Rightarrow> ('v, 'a) RunningAggregator" where
  "UpdateWindow start until r =
     logged (Debugf_updated_range start until) (r\<lparr>periodStart := start, periodEnd := until\<rparr>)"

text \<open>
  \<open>Add\<close> takes the reference \<open>m\<close> to the producer's metric. It returns whether the
  original is to be dropped, with the aggregator and the store as they are afterwards.
  Go has no dangling reference; on an address that holds no object the model answers
  \<open>None\<close>.
\<close>

definition Add ::
  "('v, 'a, 'c) Aggregator_methods \<Rightarrow> addr \<Rightarrow> ('v, 'a) RunningAggregator \<Rightarrow> 'v heap
     \<Rightarrow> (bool \<times> ('v, 'a) RunningAggregator \<times> 'v heap) option" where
  "Add A m r h =
     (if \<not> m < length h then None
      else
        let (ok, err) = Select (Filter (Config r)) (h ! m);
            r1 = (case err of Some e \<Rightarrow> logged (Errorf_filtering_failed e) r | None \<Rightarrow> r)
        in if err = None \<and> \<not> ok then Some (False, r1, h)
           else
             let (c, h1) = FromMetric m h;
                 h2 = Filter_Modify (Filter (Config r)) c h1
             in if length (FieldList (h2 ! c)) = 0
                then Some (DropOriginal (Config r),
                           r1\<lparr>MetricsFiltered := MetricsFiltered r1 + 1\<rparr>, h2)
                else if Before (Time (h2 ! c)) (time_Add (periodStart r) (Duration_neg (Grace (Config r))))
                        \<or> After (Time (h2 ! c)) (time_Add (periodEnd r) (Delay (Config r)))
                then Some (DropOriginal (Config r),
                           (logged (Debugf_outside_window (Time (h2 ! c)) (periodStart r)
                                      (periodEnd r) (Grace (Config r))) r1)
                             \<lparr>MetricsDropped := MetricsDropped r1 + 1\<rparr>, h2)
                else Some (DropOriginal (Config r),
                           (logged (Call_Add c) r1)
                             \<lparr>Aggregator := agg_Add A (h2 ! c) (Aggregator r1)\<rparr>, h2))"

text \<open>
  \<open>Push\<close> reads the clock: \<open>now\<close> is the reading taken for the window check and
  \<open>elapsed\<close> the nanoseconds measured around the algorithm's \<open>Push\<close>.
\<close>

definition Push ::
  "('v, 'a, 'c) Aggregator_methods \<Rightarrow> time \<Rightarrow> duration \<Rightarrow> 'c \<Rightarrow> ('v, 'a) RunningAggregator
     \<Rightarrow> 'c \<times> ('v, 'a) RunningAggregator" where
  "Push A now elapsed acc r =
     (let since = periodEnd r;
          until = time_Add (periodEnd r) (Period (Config r));
          nowWall = Truncate now (- 1);
          (since, until) =
            (if Before nowWall (Truncate since (- 1)) \<or> After nowWall (Truncate until (- 1))
             then (Truncate nowWall (Period (Config r)),
                   time_Add (Truncate nowWall (Period (Config r))) (Period (Config r)))
             else (since, until));
          r1 = UpdateWindow since until r;
          (acc1, a1) = agg_Push A acc (Aggregator r1);
          r2 = (logged Call_Push r1)\<lparr>Aggregator := a1\<rparr>;
          r3 = r2\<lparr>PushTime := PushTime r2 + elapsed\<rparr>;
          r4 = (logged Call_Reset r3)\<lparr>Aggregator := agg_Reset A (Aggregator r3)\<rparr>
      in (acc1, r4))"

text \<open>The events an operation has added to those of \<open>r\<close>.\<close>

definition new_events :: "('v, 'a) RunningAggregator \<Rightarrow> ('v, 'a) RunningAggregator \<Rightarrow> event list" where
  "new_events r r' = drop (length (events r)) (events r')"


text \<open>Whether an operation has handed a metric to the algorithm's \<open>Add\<close>.\<close>

definition forwarded :: "('v, 'a) RunningAggregator \<Rightarrow> ('v, 'a) RunningAggregator \<Rightarrow> bool" where
  "forwarded r r' = (\<exists>c. Call_Add c \<in> set (new_events r r'))"

text \<open>Whether an event is the line that \<open>UpdateWindow\<close> logs.\<close>

fun is_window_update :: "event \<Rightarrow> bool" where
  "is_window_update (Debugf_updated_range s u) = True"
| "is_window_update e = False"

text \<open>
  The copy that \<open>Add\<close> works on, as a value: the metric without its tracking, after
  \<open>Modify\<close>.
\<close>

definition filtered_copy :: "'v Filter \<Rightarrow> 'v metric \<Rightarrow> 'v metric" where
  "filtered_copy f x =
     (case Modify f (Name x, TagList x, FieldList x) of
        (n, ts, fs) \<Rightarrow> x\<lparr>Name := n, TagList := ts, FieldList := fs, tracking := None\<rparr>)"

text \<open>
  The four ways through \<open>Add\<close>, in the order of its checks, and the drop decision as
  a function of the configured policy and the way taken.
\<close>

datatype outcome = NotSelected | NoFields | OutsideWindow | Accepted

definition outcome_of :: "('v, 'a) RunningAggregator \<Rightarrow> 'v metric \<Rightarrow> outcome" where
  "outcome_of r x =
     (let (ok, err) = Select (Filter (Config r)) x;
          c = filtered_copy (Filter (Config r)) x
      in if err = None \<and> \<not> ok then NotSelected
         else if length (FieldList c) = 0 then NoFields
         else if Before (Time c) (time_Add (periodStart r) (Duration_neg (Grace (Config r))))
                 \<or> After (Time c) (time_Add (periodEnd r) (Delay (Config r)))
         then OutsideWindow
         else Accepted)"

fun drop_decision :: "bool \<Rightarrow> outcome \<Rightarrow> bool" where
  "drop_decision d NotSelected = False"
| "drop_decision d NoFields = d"
| "drop_decision d OutsideWindow = d"
| "drop_decision d Accepted = d"

text \<open>
  The clock check of \<open>Push\<close> as the specification words it: the current time and the
  two ends of the interval from \<open>periodEnd\<close> to \<open>periodEnd + period\<close>, each
  truncated to whole seconds.
\<close>

definition Second :: duration where
  "Second = 1000000000"

definition outside_whole_seconds :: "time \<Rightarrow> time \<Rightarrow> duration \<Rightarrow> bool" where
  "outside_whole_seconds now pe p =
     (Truncate now Second < Truncate pe Second
      \<or> Truncate (time_Add pe p) Second < Truncate now Second)"

text \<open>
  Modelled from the spec: the start of the aggregator. The agent that starts the
  aggregators is not among the sources; by the specification the window is created
  there with \<open>periodStart = now\<close> and \<open>periodEnd = now + period\<close>, which the agent
  does through \<open>UpdateWindow\<close>.
\<close>

definition start :: "time \<Rightarrow> 'a \<Rightarrow> 'v AggregatorConfig \<Rightarrow> ('v, 'a) RunningAggregator" where
  "start now aggregator config =
     UpdateWindow now (time_Add now (Period config)) (NewRunningAggregator aggregator config)"

text \<open>
  The states an aggregator goes through: from its start, producers call \<open>Add\<close> and
  the flush tick calls \<open>Push\<close>, in any order.
\<close>

inductive reachable ::
  "('v, 'a, 'c) Aggregator_methods \<Rightarrow> ('v, 'a) RunningAggregator \<Rightarrow> bool"
  for A :: "('v, 'a, 'c) Aggregator_methods" where
  reachable_start: "reachable A (start now aggregator config)"
| reachable_Add: "reachable A r \<Longrightarrow> Add A m r h = Some (b, r', h') \<Longrightarrow> reachable A r'"
| reachable_Push: "reachable A r \<Longrightarrow> Push A now elapsed acc r = (acc', r') \<Longrightarrow> reachable A r'"

section \<open>The Kubernetes input: one request per node\<close>

text \<open>
  What a collection cycle does to the accumulator is a sequence of calls. The points
  are of a type \<open>'p\<close>; \<open>AddError\<close> is called with the error a request returned, which
  is \<open>None\<close> for \<open>nil\<close>.
\<close>

datatype 'p acc_call = AddFields 'p | AddError "string option"

record Kubernetes =
  URL :: string
  NodeMetricName :: string

text \<open>
  The cluster as the plugin meets it: the answer of the node listing, the two
  documents a kubelet serves (each request may fail), and the points that the three
  build functions add for them.
\<close>

record ('s, 'i, 'p) cluster =
  getNodeURLs :: "string + string list"
  loadSummary :: "string \<Rightarrow> string + 's"
  gatherPodInfo :: "string \<Rightarrow> string + 'i"
  buildSystemContainerMetrics :: "'s \<Rightarrow> 'p list"
  buildNodeMetrics :: "'s \<Rightarrow> string \<Rightarrow> 'p list"
  buildPodMetrics :: "'s \<Rightarrow> 'i \<Rightarrow> 'p list"

definition gatherSummary ::
  "('s, 'i, 'p) cluster \<Rightarrow> Kubernetes \<Rightarrow> string \<Rightarrow> 'p acc_call list \<times> string option" where
  "gatherSummary env k baseURL =
     (case loadSummary env (baseURL @ ''/stats/summary'') of
        Inl err \<Rightarrow> ([], Some err)
      | Inr summaryMetrics \<Rightarrow>
          (case gatherPodInfo env baseURL of
             Inl err \<Rightarrow> ([], Some err)
           | Inr podInfos \<Rightarrow>
               (map AddFields
                  (buildSystemContainerMetrics env summaryMetrics
                   @ buildNodeMetrics env summaryMetrics (NodeMetricName k)
                   @ buildPodMetrics env summaryMetrics podInfos),
                None)))"

text \<open>The body of one request: \<open>acc.AddError(k.gatherSummary(url, acc))\<close>.\<close>

definition request :: "('s, 'i, 'p) cluster \<Rightarrow> Kubernetes \<Rightarrow> string \<Rightarrow> 'p acc_call list" where
  "request env k url = fst (gatherSummary env k url) @ [AddError (snd (gatherSummary env k url))]"

text \<open>
  The goroutines started in the loop run side by side until \<open>wg.Wait\<close> returns: the
  accumulator sees the calls of all of them, those of each one in its own order.
\<close>

fun interleavings :: "'a list list \<Rightarrow> 'a list set" where
  "interleavings [] = {[]}"
| "interleavings (t # ts) = (\<Union>zs \<in> interleavings ts. shuffles t zs)"

text \<open>
  \<open>Gather\<close> gives the error it returns (\<open>None\<close> for \<open>nil\<close>) with the calls the
  accumulator has received, for every way the requests can run.
\<close>

definition Gather ::
  "('s, 'i, 'p) cluster \<Rightarrow> Kubernetes \<Rightarrow> (string option \<times> 'p acc_call list) set" where
  "Gather env k =
     (if URL k \<noteq> [] then {(None, request env k (URL k))}
      else
        (case getNodeURLs env of
           Inl err \<Rightarrow> {(Some err, [])}
         | Inr nodeBaseURLs \<Rightarrow> Pair None ` interleavings (map (request env k) nodeBaseURLs)))"

definition is_AddError :: "'p acc_call \<Rightarrow> bool" where
  "is_AddError c = (case c of AddError e \<Rightarrow> True | AddFields p \<Rightarrow> False)"

section \<open>A small instance\<close>

text \<open>
  An algorithm that counts the metrics it is given, two filters, a configuration with
  a period of ten, and a tracked metric.
\<close>

definition count_methods :: "(int, nat, string list) Aggregator_methods" where
  "count_methods = \<lparr>agg_Add = (\<lambda>x n. n + 1), agg_Push = (\<lambda>acc n. (acc, n)), agg_Reset = (\<lambda>n. 0)\<rparr>"

definition pass_all :: "int Filter" where
  "pass_all = \<lparr>Select = (\<lambda>x. (True, None)), Modify = (\<lambda>x. x)\<rparr>"

definition bad_pattern :: "int Filter" where
  "bad_pattern = \<lparr>Select = (\<lambda>x. (False, Some ''bad pattern'')), Modify = (\<lambda>x. x)\<rparr>"

definition cfg10 :: "int Filter \<Rightarrow> int AggregatorConfig" where
  "cfg10 f = \<lparr>DropOriginal = True, Period = 10, Delay = 2, Grace = 3, Filter = f\<rparr>"

definition window :: "time \<Rightarrow> time \<Rightarrow> int Filter \<Rightarrow> (int, nat) RunningAggregator" where
  "window s u f = UpdateWindow s u (NewRunningAggregator 0 (cfg10 f))"

definition cpu :: "time \<Rightarrow> int metric" where
  "cpu t = \<lparr>Name = ''cpu'', TagList = [], FieldList = [(''value'', 5)], Time = t, tracking = Some 7\<rparr>"

text \<open>
  An algorithm whose \<open>Push\<close> reports a failure to the accumulator and leaves its
  count as it is.
\<close>

definition failing_methods :: "(int, nat, string list) Aggregator_methods" where
  "failing_methods =
     \<lparr>agg_Add = (\<lambda>x n. n + 1), agg_Push = (\<lambda>acc n. (acc @ [''push failed''], n)),
      agg_Reset = (\<lambda>n. 0)\<rparr>"

text \<open>
  An aggregator with a period of ten seconds whose window ends half a second after
  the tenth second.
\<close>

definition half_past :: "(int, nat) RunningAggregator" where
  "half_past =
     UpdateWindow 500000000 10500000000
       (NewRunningAggregator 0 ((cfg10 pass_all)\<lparr>Period := 10000000000\<rparr>))"

text \<open>
  A cluster of two nodes: the kubelet of \<open>a\<close> times out, the kubelet of \<open>b\<close>
  serves a summary from which one node point is built.
\<close>

definition two_nodes :: "(unit, unit, string) cluster" where
  "two_nodes =
     \<lparr>getNodeURLs = Inr [''a'', ''b''],
      loadSummary = (\<lambda>url. if url = ''a/stats/summary'' then Inl ''timeout'' else Inr ()),
      gatherPodInfo = (\<lambda>url. Inr ()),
      buildSystemContainerMetrics = (\<lambda>s. []),
      buildNodeMetrics = (\<lambda>s name. [name]),
      buildPodMetrics = (\<lambda>s i. [])\<rparr>"

text \<open>
  The window from 100 to 110 under a configuration whose grace is the least
  \<open>int64\<close> duration.
\<close>

definition least_grace :: "(int, nat) RunningAggregator" where
  "least_grace =
     UpdateWindow 100 110
       (NewRunningAggregator 0 ((cfg10 pass_all)\<lparr>Grace := - 9223372036854775808\<rparr>))"

section \<open>Properties of the running aggregator\<close>

subsection \<open>Auxiliary facts\<close>

lemma logged_simps [simp]:
  "Aggregator (logged e r) = Aggregator r"
  "Config (logged e r) = Config r"
  "periodStart (logged e r) = periodStart r"
  "periodEnd (logged e r) = periodEnd r"
  "events (logged e r) = events r @ [e]"
  "MetricsPushed (logged e r) = MetricsPushed r"
  "MetricsFiltered (logged e r) = MetricsFiltered r"
  "MetricsDropped (logged e r) = MetricsDropped r"
  "PushTime (logged e r) = PushTime r"
  by (simp_all add: logged_def)

lemma copy_at:
  "m < length h \<Longrightarrow>
   Filter_Modify f (length h) (h @ [(h ! m)\<lparr>tracking := None\<rparr>]) ! length h = filtered_copy f (h ! m)"
  by (simp add: Filter_Modify_def filtered_copy_def split: prod.splits)

lemma Time_filtered_copy [simp]: "Time (filtered_copy f x) = Time x"
  by (simp add: filtered_copy_def split: prod.splits)

lemma tracking_filtered_copy [simp]: "tracking (filtered_copy f x) = None"
  by (simp add: filtered_copy_def split: prod.splits)

text \<open>
  Negating a duration gives its negative, except for the least \<open>int64\<close>, which
  comes back as it is.
\<close>

lemma Duration_neg_in_range:
  assumes "- (2 ^ 63) < d" and "d < 2 ^ 63"
  shows "Duration_neg d = - d"
proof -
  have "0 \<le> - d + 2 ^ 63" and "- d + 2 ^ 63 < (2 ^ 64 :: int)"
    using assms by simp_all
  then have "(- d + 2 ^ 63) mod 2 ^ 64 = - d + 2 ^ 63"
    by (rule mod_pos_pos_trivial)
  then show ?thesis by (simp add: Duration_neg_def int64_def)
qed


lemma Duration_neg_3 [simp]: "Duration_neg 3 = - 3"
  by (rule Duration_neg_in_range) simp_all

text \<open>The branches of \<open>Add\<close>, with the copy read off the store.\<close>

lemma Add_cases:
  assumes "m < length h" and "Select (Filter (Config r)) (h ! m) = (ok, err)"
  defines "c \<equiv> filtered_copy (Filter (Config r)) (h ! m)"
  defines "r1 \<equiv> (case err of Some e \<Rightarrow> logged (Errorf_filtering_failed e) r | None \<Rightarrow> r)"
  defines "h2 \<equiv> Filter_Modify (Filter (Config r)) (length h) (h @ [(h ! m)\<lparr>tracking := None\<rparr>])"
  shows "Add A m r h =
     (if err = None \<and> \<not> ok then Some (False, r1, h)
      else if FieldList c = []
      then Some (DropOriginal (Config r), r1\<lparr>MetricsFiltered := MetricsFiltered r1 + 1\<rparr>, h2)
      else if Time c < periodStart r + Duration_neg (Grace (Config r))
              \<or> Time c > periodEnd r + Delay (Config r)
      then Some (DropOriginal (Config r),
                 (logged (Debugf_outside_window (Time c) (periodStart r) (periodEnd r)
                            (Grace (Config r))) r1)
                    \<lparr>MetricsDropped := MetricsDropped r1 + 1\<rparr>, h2)
      else Some (DropOriginal (Config r),
                 (logged (Call_Add (length h)) r1)\<lparr>Aggregator := agg_Add A c (Aggregator r1)\<rparr>, h2))"
  using assms(1,2) unfolding c_def r1_def h2_def
  by (simp add: Add_def FromMetric_def Let_def copy_at Before_def After_def time_Add_def)

lemma window_simps [simp]:
  "Config (window s u f) = cfg10 f"
  "periodStart (window s u f) = s"
  "periodEnd (window s u f) = u"
  "Aggregator (window s u f) = 0"
  "events (window s u f) = [Debugf_updated_range s u]"
  "MetricsDropped (window s u f) = 0"
  "MetricsFiltered (window s u f) = 0"
  by (simp_all add: window_def UpdateWindow_def NewRunningAggregator_def)

lemma cfg10_simps [simp]:
  "DropOriginal (cfg10 f) = True"
  "Period (cfg10 f) = 10"
  "Delay (cfg10 f) = 2"
  "Grace (cfg10 f) = 3"
  "Filter (cfg10 f) = f"
  by (simp_all add: cfg10_def)

lemma cpu_simps [simp]:
  "Time (cpu t) = t"
  "filtered_copy pass_all (cpu t) = (cpu t)\<lparr>tracking := None\<rparr>"
  "filtered_copy bad_pattern (cpu t) = (cpu t)\<lparr>tracking := None\<rparr>"
  "FieldList (cpu t) = [(''value'', 5)]"
  "tracking (cpu t) = Some 7"
  by (simp_all add: cpu_def filtered_copy_def pass_all_def bad_pattern_def)

lemma Select_simps [simp]:
  "Select pass_all x = (True, None)"
  "Select bad_pattern x = (False, Some ''bad pattern'')"
  by (simp_all add: pass_all_def bad_pattern_def)

lemma count_methods_simps [simp]:
  "agg_Add count_methods x n = n + 1"
  "agg_Push count_methods acc n = (acc, n)"
  "agg_Reset count_methods n = 0"
  by (simp_all add: count_methods_def)

lemma least_grace_simps [simp]:
  "Config least_grace = (cfg10 pass_all)\<lparr>Grace := - 9223372036854775808\<rparr>"
  "periodStart least_grace = 100"
  "periodEnd least_grace = 110"
  "Aggregator least_grace = 0"
  "MetricsDropped least_grace = 0"
  by (simp_all add: least_grace_def UpdateWindow_def NewRunningAggregator_def)


subsection \<open>Window admission\<close>




subsection \<open>The drop decision\<close>

lemma outcome_of_cases:
  assumes "Select (Filter (Config r)) x = (ok, err)"
  shows "outcome_of r x =
     (if err = None \<and> \<not> ok then NotSelected
      else if FieldList (filtered_copy (Filter (Config r)) x) = [] then NoFields
      else if Time x < periodStart r + Duration_neg (Grace (Config r))
              \<or> Time x > periodEnd r + Delay (Config r)
      then OutsideWindow
      else Accepted)"
  using assms by (simp add: outcome_of_def Let_def Before_def After_def time_Add_def)

text \<open>
  Claim C2. The boolean that \<open>Add\<close> returns is the configured drop-original policy
  in each of the three cases: no fields left after filtering (counted as filtered),
  timestamp rejected by the window (counted as dropped), and accepted into the
  algorithm. The decision is the function \<open>drop_decision\<close> of the configured
  policy and of the outcome of filter and window, and of nothing else.
\<close>

theorem Add_drop_decision:
  assumes valid: "m < length h"
  shows "\<exists>b r' h'. Add A m r h = Some (b, r', h') \<and>
           b = drop_decision (DropOriginal (Config r)) (outcome_of r (h ! m)) \<and>
           (outcome_of r (h ! m) = NoFields \<longrightarrow>
              b = DropOriginal (Config r) \<and> MetricsFiltered r' = MetricsFiltered r + 1
              \<and> \<not> forwarded r r') \<and>
           (outcome_of r (h ! m) = OutsideWindow \<longrightarrow>
              b = DropOriginal (Config r) \<and> MetricsDropped r' = MetricsDropped r + 1
              \<and> \<not> forwarded r r') \<and>
           (outcome_of r (h ! m) = Accepted \<longrightarrow>
              b = DropOriginal (Config r) \<and> forwarded r r')"
proof -
  obtain ok err where sel: "Select (Filter (Config r)) (h ! m) = (ok, err)"
    by (cases "Select (Filter (Config r)) (h ! m)")
  show ?thesis
    using Add_cases [OF valid sel, of A] outcome_of_cases [OF sel]
    by (cases err) (auto simp: forwarded_def new_events_def)
qed

text \<open>A metric stamped 113 is outside the window from 100 to 110 with a delay of 2.\<close>

lemma outcome_of_cpu_113: "outcome_of (window 100 110 pass_all) (cpu 113) = OutsideWindow"
  by (simp add: outcome_of_cases [of _ _ True None])

theorem Add_drop_decision_witness:
  "\<exists>b r' h'. Add count_methods 0 (window 100 110 pass_all) [cpu 113] = Some (b, r', h')
      \<and> b = True \<and> MetricsDropped r' = 1"
proof -
  let ?r = "window 100 110 pass_all"
  have v: "0 < length [cpu 113]" by simp
  have o: "outcome_of ?r ([cpu 113] ! 0) = OutsideWindow"
    using outcome_of_cpu_113 by simp
  from Add_drop_decision [OF v, of count_methods ?r]
  obtain b r' h' where a: "Add count_methods 0 ?r [cpu 113] = Some (b, r', h')"
    and w: "outcome_of ?r ([cpu 113] ! 0) = OutsideWindow \<longrightarrow>
              b = DropOriginal (Config ?r) \<and> MetricsDropped r' = MetricsDropped ?r + 1
              \<and> \<not> forwarded ?r r'"
    by blast
  from w o have "b = True" and "MetricsDropped r' = 1" by simp_all
  with a show ?thesis by blast
qed

subsection \<open>An error from the filter\<close>

text \<open>
  The metric stamped 105 in the window from 100 to 110: what \<open>Add\<close> gives when the
  filter selects it and when the filter fails on it.
\<close>

lemma Filter_Modify_instances [simp]:
  "Filter_Modify pass_all c h = h"
  "Filter_Modify bad_pattern c h = h"
  by (simp_all add: Filter_Modify_def pass_all_def bad_pattern_def)

lemma Add_cpu_105:
  "Add count_methods 0 (window 100 110 pass_all) [cpu 105] =
     Some (True,
           (logged (Call_Add 1) (window 100 110 pass_all))\<lparr>Aggregator := 1\<rparr>,
           [cpu 105, (cpu 105)\<lparr>tracking := None\<rparr>])"
  by (simp add: Add_cases [of _ _ _ True None])

lemma Add_cpu_105_bad_pattern:
  "Add count_methods 0 (window 100 110 bad_pattern) [cpu 105] =
     Some (True,
           (logged (Call_Add 1)
              (logged (Errorf_filtering_failed ''bad pattern'') (window 100 110 bad_pattern)))
             \<lparr>Aggregator := 1\<rparr>,
           [cpu 105, (cpu 105)\<lparr>tracking := None\<rparr>])"
  by (simp add: Add_cases [of _ _ _ False "Some ''bad pattern''"])

text \<open>
  Claim C6, as stated, fails: a metric on which \<open>Select\<close> returns an error is not
  treated as filtered out. Here the filter fails on a metric inside the window, and
  the metric is handed to the algorithm's \<open>Add\<close> all the same.
\<close>

theorem Add_filter_error_counterexample:
  "Select (Filter (Config (window 100 110 bad_pattern))) ([cpu 105] ! 0) = (False, Some ''bad pattern'')
   \<and> Add count_methods 0 (window 100 110 bad_pattern) [cpu 105] \<noteq> None
   \<and> forwarded (window 100 110 bad_pattern)
        (fst (snd (the (Add count_methods 0 (window 100 110 bad_pattern) [cpu 105]))))
   \<and> Aggregator (fst (snd (the (Add count_methods 0 (window 100 110 bad_pattern) [cpu 105])))) = 1
   \<and> MetricsFiltered (fst (snd (the (Add count_methods 0 (window 100 110 bad_pattern) [cpu 105])))) = 0"
  by (simp add: Add_cpu_105_bad_pattern forwarded_def new_events_def)

text \<open>
  Claim C6, amended. When \<open>Select\<close> returns an error, \<open>Add\<close> logs it and goes on
  as for a selected metric: the copy is counted as filtered when it has no fields
  left, counted as dropped when its timestamp is outside the window as \<open>Add\<close>
  computes it (from \<open>periodStart\<close> plus Go's negation of the grace to
  \<open>periodEnd + delay\<close>), and handed to the algorithm's \<open>Add\<close> otherwise. \<open>Add\<close> returns in each case, so the aggregator
  goes on with the next metric.
\<close>

theorem Add_filter_error:
  assumes valid: "m < length h"
    and sel: "Select (Filter (Config r)) (h ! m) = (ok, Some e)"
  shows "\<exists>b r' h'. Add A m r h = Some (b, r', h') \<and>
           hd (new_events r r') = Errorf_filtering_failed e \<and>
           (FieldList (filtered_copy (Filter (Config r)) (h ! m)) = [] \<longrightarrow>
              MetricsFiltered r' = MetricsFiltered r + 1 \<and> \<not> forwarded r r'
              \<and> Aggregator r' = Aggregator r) \<and>
           (FieldList (filtered_copy (Filter (Config r)) (h ! m)) \<noteq> [] \<longrightarrow>
              (forwarded r r' \<longleftrightarrow>
                 periodStart r + Duration_neg (Grace (Config r)) \<le> Time (h ! m) \<and>
                 Time (h ! m) \<le> periodEnd r + Delay (Config r)) \<and>
              (forwarded r r' \<longrightarrow>
                 Aggregator r' =
                   agg_Add A (filtered_copy (Filter (Config r)) (h ! m)) (Aggregator r) \<and>
                 MetricsDropped r' = MetricsDropped r) \<and>
              (\<not> forwarded r r' \<longrightarrow>
                 Aggregator r' = Aggregator r \<and> MetricsDropped r' = MetricsDropped r + 1))"
  using Add_cases [OF valid sel, of A]
  by (auto simp: forwarded_def new_events_def)

theorem Add_filter_error_witness:
  "\<exists>b r' h'. Add count_methods 0 (window 100 110 bad_pattern) [cpu 105] = Some (b, r', h')
      \<and> hd (new_events (window 100 110 bad_pattern) r') = Errorf_filtering_failed ''bad pattern''
      \<and> forwarded (window 100 110 bad_pattern) r' \<and> Aggregator r' = 1"
proof -
  let ?r = "window 100 110 bad_pattern"
  have v: "0 < length [cpu 105]" by simp
  have s: "Select (Filter (Config ?r)) ([cpu 105] ! 0) = (False, Some ''bad pattern'')" by simp
  have f: "FieldList (filtered_copy (Filter (Config ?r)) ([cpu 105] ! 0)) \<noteq> []" by simp
  from Add_filter_error [OF v s, of count_methods]
  obtain b r' h' where a: "Add count_methods 0 ?r [cpu 105] = Some (b, r', h')"
    and l: "hd (new_events ?r r') = Errorf_filtering_failed ''bad pattern''"
    and w: "FieldList (filtered_copy (Filter (Config ?r)) ([cpu 105] ! 0)) \<noteq> [] \<longrightarrow>
              (forwarded ?r r' \<longleftrightarrow>
                 periodStart ?r + Duration_neg (Grace (Config ?r)) \<le> Time ([cpu 105] ! 0) \<and>
                 Time ([cpu 105] ! 0) \<le> periodEnd ?r + Delay (Config ?r)) \<and>
              (forwarded ?r r' \<longrightarrow>
                 Aggregator r' =
                   agg_Add count_methods (filtered_copy (Filter (Config ?r)) ([cpu 105] ! 0)) (Aggregator ?r) \<and>
                 MetricsDropped r' = MetricsDropped ?r) \<and>
              (\<not> forwarded ?r r' \<longrightarrow>
                 Aggregator r' = Aggregator ?r \<and> MetricsDropped r' = MetricsDropped ?r + 1)"
    by blast
  from w f have fw: "forwarded ?r r'" by simp
  with w f have "Aggregator r' = 1" by simp
  with a l fw show ?thesis by blast
qed

subsection \<open>The producer's metric\<close>

text \<open>
  Claim C7. \<open>Add\<close> applies \<open>Modify\<close> to a copy only. After \<open>Add\<close> has returned,
  every object that was in the store, the producer's metric among them, is as it
  was before, its tracking included; what the algorithm's \<open>Add\<close> is handed is a new
  object, different from the producer's, and it carries no tracking, so that nothing
  the algorithm keeps or pushes later is tied to the delivery of the original.
\<close>

theorem Add_leaves_original:
  assumes valid: "m < length h"
    and add: "Add A m r h = Some (b, r', h')"
  shows "take (length h) h' = h \<and> h' ! m = h ! m \<and>
         (\<forall>c. Call_Add c \<in> set (new_events r r') \<longrightarrow>
            c \<noteq> m \<and> length h \<le> c \<and> c < length h' \<and> tracking (h' ! c) = None \<and>
            Aggregator r' = agg_Add A (h' ! c) (Aggregator r))"
proof -
  obtain ok err where sel: "Select (Filter (Config r)) (h ! m) = (ok, err)"
    by (cases "Select (Filter (Config r)) (h ! m)")
  let ?h2 = "Filter_Modify (Filter (Config r)) (length h) (h @ [(h ! m)\<lparr>tracking := None\<rparr>])"
  have len: "length ?h2 = Suc (length h)"
    by (simp add: Filter_Modify_def split: prod.splits)
  have old: "take (length h) ?h2 = h"
    by (simp add: Filter_Modify_def split: prod.splits)
  have same: "?h2 ! m = h ! m"
    using valid by (simp add: Filter_Modify_def nth_append split: prod.splits)
  have new: "?h2 ! length h = filtered_copy (Filter (Config r)) (h ! m)"
    using valid by (rule copy_at)
  show ?thesis
    using Add_cases [OF valid sel, of A] add valid len old same new
    by (cases err) (auto simp: new_events_def split: if_splits)
qed

theorem Add_leaves_original_witness:
  "[cpu 105, (cpu 105)\<lparr>tracking := None\<rparr>] ! 0 = cpu 105
   \<and> tracking ([cpu 105, (cpu 105)\<lparr>tracking := None\<rparr>] ! 0) = Some 7
   \<and> Call_Add 1 \<in> set (new_events (window 100 110 pass_all)
        ((logged (Call_Add 1) (window 100 110 pass_all))\<lparr>Aggregator := 1\<rparr>))
   \<and> tracking ([cpu 105, (cpu 105)\<lparr>tracking := None\<rparr>] ! 1) = None"
proof -
  have v: "0 < length [cpu 105]" by simp
  have e: "Call_Add 1 \<in> set (new_events (window 100 110 pass_all)
        ((logged (Call_Add 1) (window 100 110 pass_all))\<lparr>Aggregator := 1\<rparr>))"
    by (simp add: new_events_def)
  from Add_leaves_original [OF v Add_cpu_105] e
  have "[cpu 105, (cpu 105)\<lparr>tracking := None\<rparr>] ! 0 = [cpu 105] ! 0"
    and "tracking ([cpu 105, (cpu 105)\<lparr>tracking := None\<rparr>] ! 1) = None"
    by blast+
  with e show ?thesis by simp
qed

subsection \<open>Push\<close>

text \<open>What \<open>Push\<close> leaves behind, piece by piece.\<close>

lemma Push_window:
  "periodStart (snd (Push A now elapsed acc r)) =
     (if now < periodEnd r \<or> periodEnd r + Period (Config r) < now
      then Truncate now (Period (Config r)) else periodEnd r)"
  "periodEnd (snd (Push A now elapsed acc r)) =
     periodStart (snd (Push A now elapsed acc r)) + Period (Config r)"
  by (simp_all add: Push_def Let_def UpdateWindow_def Truncate_def Before_def After_def
        time_Add_def split: prod.splits)

lemma Push_events:
  "events (snd (Push A now elapsed acc r)) =
     events r @ [Debugf_updated_range (periodStart (snd (Push A now elapsed acc r)))
                   (periodEnd (snd (Push A now elapsed acc r))),
                 Call_Push, Call_Reset]"
  by (simp add: Push_def Let_def UpdateWindow_def split: prod.splits)

lemma Push_Aggregator:
  "Aggregator (snd (Push A now elapsed acc r)) = agg_Reset A (snd (agg_Push A acc (Aggregator r)))"
  "fst (Push A now elapsed acc r) = fst (agg_Push A acc (Aggregator r))"
  by (simp_all add: Push_def Let_def UpdateWindow_def split: prod.splits)

lemma Push_Config: "Config (snd (Push A now elapsed acc r)) = Config r"
  by (simp add: Push_def Let_def UpdateWindow_def split: prod.splits)

lemma new_events_append: "events r' = events r @ es \<Longrightarrow> new_events r r' = es"
  by (simp add: new_events_def)

lemma Truncate_floor: "0 < d \<Longrightarrow> Truncate t d = (t div d) * d"
  by (simp add: Truncate_def minus_mod_eq_div_mult)

text \<open>
  Claim C3. When \<open>Push\<close> finds the clock outside the interval from \<open>periodEnd\<close> to
  \<open>periodEnd + period\<close>, the window becomes the one that starts at the clock
  reading rounded down to a multiple of the period and ends one period later. This
  is one update of the window, followed by the algorithm's \<open>Push\<close> and \<open>Reset\<close>:
  the missed periods are not gone through.
\<close>

theorem Push_reanchors:
  assumes jumped: "now < periodEnd r \<or> periodEnd r + Period (Config r) < now"
    and positive: "0 < Period (Config r)"
  shows "periodStart (snd (Push A now elapsed acc r)) = (now div Period (Config r)) * Period (Config r)
       \<and> periodEnd (snd (Push A now elapsed acc r)) =
           (now div Period (Config r)) * Period (Config r) + Period (Config r)
       \<and> new_events r (snd (Push A now elapsed acc r)) =
           [Debugf_updated_range ((now div Period (Config r)) * Period (Config r))
              ((now div Period (Config r)) * Period (Config r) + Period (Config r)),
            Call_Push, Call_Reset]"
proof -
  let ?r' = "snd (Push A now elapsed acc r)"
  have s: "periodStart ?r' = (now div Period (Config r)) * Period (Config r)"
    using jumped positive by (simp add: Push_window(1) Truncate_floor)
  have u: "periodEnd ?r' = (now div Period (Config r)) * Period (Config r) + Period (Config r)"
    using s by (simp add: Push_window(2))
  have "new_events r ?r' = [Debugf_updated_range (periodStart ?r') (periodEnd ?r'), Call_Push, Call_Reset]"
    by (rule new_events_append) (rule Push_events)
  with s u show ?thesis by simp
qed

text \<open>With \<open>periodEnd = 100\<close>, \<open>now = 500\<close> and a period of 10 the window becomes 500 to 510.\<close>

theorem Push_reanchors_witness:
  "periodStart (snd (Push count_methods 500 0 [] (window 90 100 pass_all))) = 500
   \<and> periodEnd (snd (Push count_methods 500 0 [] (window 90 100 pass_all))) = 510
   \<and> new_events (window 90 100 pass_all) (snd (Push count_methods 500 0 [] (window 90 100 pass_all)))
       = [Debugf_updated_range 500 510, Call_Push, Call_Reset]"
proof -
  let ?r = "window 90 100 pass_all"
  have j: "500 < periodEnd ?r \<or> periodEnd ?r + Period (Config ?r) < 500" by simp
  have p: "0 < Period (Config ?r)" by simp
  from Push_reanchors [OF j p, of count_methods 0 "[]"] show ?thesis by simp
qed

text \<open>
  Claim C4, as stated, fails: the check is not made on whole seconds. The window
  ends at 10.5 s and the clock reads 10.2 s: truncated to whole seconds the reading
  is not outside the interval, and yet \<open>Push\<close> re-anchors the window to 10 s and
  20 s instead of moving it on to 10.5 s and 20.5 s.
\<close>

theorem Push_whole_seconds_counterexample:
  "\<not> outside_whole_seconds 10200000000 (periodEnd half_past) (Period (Config half_past))
   \<and> periodEnd half_past = 10500000000
   \<and> periodStart (snd (Push count_methods 10200000000 0 [] half_past)) = 10000000000
   \<and> periodEnd (snd (Push count_methods 10200000000 0 [] half_past)) = 20000000000"
proof -
  have c: "Period (Config half_past) = 10000000000" "periodEnd half_past = 10500000000"
    by (simp_all add: half_past_def UpdateWindow_def NewRunningAggregator_def)
  show ?thesis
    by (simp add: Push_window c outside_whole_seconds_def Second_def Truncate_def time_Add_def)
qed

text \<open>
  Claim C4, amended. \<open>Truncate(-1)\<close> leaves the wall-clock reading as it is, so the
  check compares the current time with \<open>periodEnd\<close> and \<open>periodEnd + period\<close> to the
  nanosecond: the window is re-anchored exactly when the current time is before
  \<open>periodEnd\<close> or after \<open>periodEnd + period\<close>, and is moved on by one period
  otherwise.
\<close>

theorem Push_clock_check:
  "(now < periodEnd r \<or> periodEnd r + Period (Config r) < now \<longrightarrow>
      periodStart (snd (Push A now elapsed acc r)) = Truncate now (Period (Config r)) \<and>
      periodEnd (snd (Push A now elapsed acc r)) =
        Truncate now (Period (Config r)) + Period (Config r))
   \<and> (periodEnd r \<le> now \<and> now \<le> periodEnd r + Period (Config r) \<longrightarrow>
      periodStart (snd (Push A now elapsed acc r)) = periodEnd r \<and>
      periodEnd (snd (Push A now elapsed acc r)) = periodEnd r + Period (Config r))"
  by (auto simp: Push_window)

text \<open>
  A reading in the same second as \<open>periodEnd\<close> but before it re-anchors; a reading
  later in that second does not.
\<close>

theorem Push_clock_check_witness:
  "periodStart (snd (Push count_methods 10200000000 0 [] half_past)) = 10000000000
   \<and> periodStart (snd (Push count_methods 10700000000 0 [] half_past)) = 10500000000
   \<and> periodEnd (snd (Push count_methods 10700000000 0 [] half_past)) = 20500000000"
proof -
  have c: "Period (Config half_past) = 10000000000" "periodEnd half_past = 10500000000"
    by (simp_all add: half_past_def UpdateWindow_def NewRunningAggregator_def)
  from Push_clock_check [of 10200000000 half_past count_methods 0 "[]"]
    Push_clock_check [of 10700000000 half_past count_methods 0 "[]"]
  show ?thesis by (simp add: c Truncate_def)
qed

text \<open>
  Claim C5. In every \<open>Push\<close> the window is updated first, then the algorithm's
  \<open>Push\<close> is called, then its \<open>Reset\<close>, and nothing else is done to the algorithm.
  This holds for every algorithm, whatever its \<open>Push\<close> does to the accumulator and
  to its own state: the state left behind is the one \<open>Reset\<close> gives.
\<close>

theorem Push_order:
  "new_events r (snd (Push A now elapsed acc r)) =
     [Debugf_updated_range (periodStart (snd (Push A now elapsed acc r)))
        (periodEnd (snd (Push A now elapsed acc r))),
      Call_Push, Call_Reset]
   \<and> Aggregator (snd (Push A now elapsed acc r)) = agg_Reset A (snd (agg_Push A acc (Aggregator r)))
   \<and> fst (Push A now elapsed acc r) = fst (agg_Push A acc (Aggregator r))"
  using new_events_append [OF Push_events] by (simp add: Push_Aggregator)

text \<open>
  The algorithm whose \<open>Push\<close> fails with a count of one: the failure reaches the
  accumulator, and the count is reset.
\<close>

theorem Push_order_witness:
  "new_events ((window 100 110 pass_all)\<lparr>Aggregator := 1\<rparr>)
     (snd (Push failing_methods 110 0 [] ((window 100 110 pass_all)\<lparr>Aggregator := 1\<rparr>)))
     = [Debugf_updated_range 110 120, Call_Push, Call_Reset]
   \<and> Aggregator (snd (Push failing_methods 110 0 [] ((window 100 110 pass_all)\<lparr>Aggregator := 1\<rparr>))) = 0
   \<and> fst (Push failing_methods 110 0 [] ((window 100 110 pass_all)\<lparr>Aggregator := 1\<rparr>)) = [''push failed'']"
  using Push_order [of "(window 100 110 pass_all)\<lparr>Aggregator := 1\<rparr>" failing_methods 110 0 "[]"]
  by (simp add: Push_window failing_methods_def)

subsection \<open>The window over the life of the aggregator\<close>

lemma Add_window_unchanged:
  assumes add: "Add A m r h = Some (b, r', h')"
  shows "periodStart r' = periodStart r \<and> periodEnd r' = periodEnd r \<and> Config r' = Config r
       \<and> filter is_window_update (new_events r r') = []"
proof -
  from add have valid: "m < length h"
    by (auto simp: Add_def split: if_splits)
  obtain ok err where sel: "Select (Filter (Config r)) (h ! m) = (ok, err)"
    by (cases "Select (Filter (Config r)) (h ! m)")
  show ?thesis
    using Add_cases [OF valid sel, of A] add
    by (cases err) (auto simp: new_events_def split: if_splits)
qed

lemma start_window:
  "periodStart (start now aggregator config) = now"
  "periodEnd (start now aggregator config) = now + Period config"
  "Config (start now aggregator config) = config"
  by (simp_all add: start_def UpdateWindow_def NewRunningAggregator_def time_Add_def)

lemma Push_one_update:
  "length (filter is_window_update (new_events r (snd (Push A now elapsed acc r)))) = 1"
  using new_events_append [OF Push_events [of A now elapsed acc r]] by simp

lemma reachable_invariant:
  "reachable A r \<Longrightarrow> periodEnd r = periodStart r + Period (Config r)"
proof (induction rule: reachable.induct)
  case (reachable_start now aggregator config)
  show ?case by (simp add: start_window)
next
  case (reachable_Add r m h b r' h')
  with Add_window_unchanged [OF reachable_Add.hyps(2)] show ?case by simp
next
  case (reachable_Push r now elapsed acc acc' r')
  from reachable_Push.hyps(2) have "r' = snd (Push A now elapsed acc r)" by simp
  then show ?case by (simp add: Push_window(2) Push_Config)
qed

text \<open>
  Claim C8. The window is created at the start of the aggregator with
  \<open>periodStart = now\<close> and \<open>periodEnd = now + period\<close>. In every state the
  aggregator reaches from there by calls of \<open>Add\<close> and \<open>Push\<close>,
  \<open>periodEnd = periodStart + period\<close> holds; from such a state \<open>Add\<close> leaves the
  window as it is and does not update it, and \<open>Push\<close>, on either branch of its
  clock check, sets the new end to the new start plus the period and updates the
  window exactly once.
\<close>

theorem window_invariant:
  assumes "reachable A r"
  shows "periodStart (start now0 aggregator0 config0) = now0
       \<and> periodEnd (start now0 aggregator0 config0) = now0 + Period config0
       \<and> periodEnd r = periodStart r + Period (Config r)
       \<and> (\<forall>m h b r' h'. Add A m r h = Some (b, r', h') \<longrightarrow>
             periodStart r' = periodStart r \<and> periodEnd r' = periodEnd r
             \<and> filter is_window_update (new_events r r') = [])
       \<and> (\<forall>now elapsed acc.
             periodEnd (snd (Push A now elapsed acc r)) =
               periodStart (snd (Push A now elapsed acc r))
                 + Period (Config (snd (Push A now elapsed acc r)))
             \<and> length (filter is_window_update
                        (new_events r (snd (Push A now elapsed acc r)))) = 1)"
  using reachable_invariant [OF assms] Add_window_unchanged [where A = A and r = r]
  by (simp add: start_window Push_window(2) Push_Config Push_one_update)

text \<open>
  Started at 0 with a period of 10, then pushed when the clock reads 25: the window
  is re-anchored to 20 and 30.
\<close>

theorem window_invariant_witness:
  "reachable count_methods (snd (Push count_methods 25 0 [] (start 0 0 (cfg10 pass_all))))
   \<and> periodStart (snd (Push count_methods 25 0 [] (start 0 0 (cfg10 pass_all)))) = 20
   \<and> periodEnd (snd (Push count_methods 25 0 [] (start 0 0 (cfg10 pass_all)))) = 20 + 10"
proof -
  let ?s = "start 0 (0::nat) (cfg10 pass_all)"
  let ?r = "snd (Push count_methods 25 0 [] ?s)"
  have r0: "reachable count_methods ?s" by (rule reachable_start)
  have p: "Push count_methods 25 0 [] ?s = (fst (Push count_methods 25 0 [] ?s), ?r)" by simp
  have r: "reachable count_methods ?r" by (rule reachable_Push [OF r0 p])
  have s: "periodStart ?r = 20"
    by (simp add: Push_window(1) start_window Truncate_def)
  have "periodEnd ?r = periodStart ?r + Period (Config ?r)"
    by (rule window_invariant [OF r, THEN conjunct2, THEN conjunct2, THEN conjunct1])
  with s have "periodEnd ?r = 20 + 10" by (simp add: Push_Config start_window)
  with r s show ?thesis by simp
qed

section \<open>Properties of the Kubernetes input\<close>

lemma mset_interleavings:
  "zs \<in> interleavings ts \<Longrightarrow> mset zs = mset (concat ts)"
proof (induction ts arbitrary: zs)
  case Nil
  then show ?case by simp
next
  case (Cons t ts)
  then obtain ys where ys: "ys \<in> interleavings ts" and zs: "zs \<in> shuffles t ys"
    by auto
  from zs have "mset zs = mset t + mset ys" by (rule mset_shuffles)
  with Cons.IH [OF ys] show ?case by simp
qed

lemma filter_interleavings:
  "zs \<in> interleavings ts \<Longrightarrow> filter P zs \<in> interleavings (map (filter P) ts)"
proof (induction ts arbitrary: zs)
  case Nil
  then show ?case by simp
next
  case (Cons t ts)
  then obtain ys where ys: "ys \<in> interleavings ts" and zs: "zs \<in> shuffles t ys"
    by auto
  from zs have "filter P zs \<in> filter P ` shuffles t ys" by (rule imageI)
  then have "filter P zs \<in> shuffles (filter P t) (filter P ys)"
    by (simp add: filter_shuffles)
  with Cons.IH [OF ys] show ?case by auto
qed

lemma concat_in_interleavings: "concat ts \<in> interleavings ts"
proof (induction ts)
  case Nil
  show ?case by simp
next
  case (Cons t ts)
  have "t @ concat ts \<in> shuffles t (concat ts)"
    by (induction t) (auto simp: Cons_in_shuffles_iff)
  with Cons.IH show ?case by auto
qed

lemma filter_request:
  "filter is_AddError (request env k url) = [AddError (snd (gatherSummary env k url))]"
proof -
  have "filter is_AddError (fst (gatherSummary env k url)) = []"
    by (auto simp: gatherSummary_def is_AddError_def filter_empty_conv split: sum.splits)
  then show ?thesis by (simp add: request_def is_AddError_def)
qed

text \<open>
  Claim C9. \<open>Gather\<close> runs one request per target: the configured URL alone, or,
  with no URL configured and the node listing answered, every node listed. However
  the requests interleave, \<open>Gather\<close> returns \<open>nil\<close> once all of them are through;
  the accumulator has then received the calls of every request, none cut short by
  the failure of another, and among them one \<open>AddError\<close> per target, carrying the
  error that target's request returned. This holds for every list of targets and
  every combination of outcomes, and the cycle always has a run.
\<close>

theorem Gather_fan_out:
  assumes targets:
    "URL k \<noteq> [] \<and> targets = [URL k] \<or> URL k = [] \<and> getNodeURLs env = Inr targets"
  shows "Gather env k \<noteq> {}
       \<and> (\<forall>res calls. (res, calls) \<in> Gather env k \<longrightarrow>
             res = None
             \<and> mset calls = mset (concat (map (request env k) targets))
             \<and> mset (filter is_AddError calls) =
                 mset (map (\<lambda>url. AddError (snd (gatherSummary env k url))) targets)
             \<and> length (filter is_AddError calls) = length targets)"
proof -
  let ?ts = "map (request env k) targets"
  have G: "Gather env k = Pair None ` interleavings ?ts"
    using targets by (auto simp: Gather_def)
  have ne: "Gather env k \<noteq> {}"
    using concat_in_interleavings [of ?ts] by (auto simp: G)
  have errs: "concat (map (filter is_AddError) ?ts) =
                map (\<lambda>url. AddError (snd (gatherSummary env k url))) targets"
    by (induction targets) (simp_all add: filter_request)
  {
    fix res calls
    assume "(res, calls) \<in> Gather env k"
    then have res: "res = None" and calls: "calls \<in> interleavings ?ts"
      by (auto simp: G)
    have all: "mset calls = mset (concat ?ts)"
      using calls by (rule mset_interleavings)
    have "mset (filter is_AddError calls) = mset (concat (map (filter is_AddError) ?ts))"
      using filter_interleavings [OF calls] by (rule mset_interleavings)
    then have e: "mset (filter is_AddError calls) =
                    mset (map (\<lambda>url. AddError (snd (gatherSummary env k url))) targets)"
      by (simp only: errs)
    from mset_eq_length [OF e]
    have n: "length (filter is_AddError calls) = length targets" by simp
    note res all e n
  }
  with ne show ?thesis by blast
qed

text \<open>
  Two nodes: the first kubelet does not answer, the second serves both documents.
  In the run where the second request gets through before the first reports its
  error, \<open>Gather\<close> returns \<open>nil\<close> and both outcomes have reached the accumulator.
\<close>

theorem Gather_fan_out_witness:
  "URL \<lparr>URL = [], NodeMetricName = ''node''\<rparr> = []
   \<and> getNodeURLs two_nodes = Inr [''a'', ''b'']
   \<and> (None, [AddFields ''node'', AddError None, AddError (Some ''timeout'')])
        \<in> Gather two_nodes \<lparr>URL = [], NodeMetricName = ''node''\<rparr>
   \<and> length (filter is_AddError [AddFields ''node'', AddError None, AddError (Some ''timeout'')]) = 2"
proof -
  let ?k = "\<lparr>URL = [], NodeMetricName = ''node''\<rparr>"
  let ?calls = "[AddFields ''node'', AddError None, AddError (Some ''timeout'')]"
  have n: "getNodeURLs two_nodes = Inr [''a'', ''b'']" by (simp add: two_nodes_def)
  have t: "URL ?k \<noteq> [] \<and> [''a'', ''b''] = [URL ?k]
           \<or> URL ?k = [] \<and> getNodeURLs two_nodes = Inr [''a'', ''b'']"
    using n by simp
  have a: "request two_nodes ?k ''a'' = [AddError (Some ''timeout'')]"
    by (simp add: request_def gatherSummary_def two_nodes_def)
  have b: "request two_nodes ?k ''b'' = [AddFields ''node'', AddError None]"
    by (simp add: request_def gatherSummary_def two_nodes_def)
  have m: "(None, ?calls) \<in> Gather two_nodes ?k"
    by (simp add: Gather_def n a b image_iff Cons_in_shuffles_iff)
  from Gather_fan_out [OF t] m
  have "length (filter is_AddError ?calls) = length [''a'', ''b'']" by blast
  with n m show ?thesis by simp
qed

end
